theory Spec2Isabelle
  imports Complex_Main
begin

section \<open>JavaScript values used by the WhatPulse pipeline\<close>

text \<open>
  Strings are lists of characters. A character stands for one code unit below 256, so the
  whitespace and case tables below are those of JavaScript restricted to that range.
  \<open>isSpace\<close> is the class \<open>\s\<close> of a regular expression, which is also what
  \<open>String.prototype.trim\<close> removes: tab, line feed, vertical tab, form feed, carriage
  return, space and the no-break space.
\<close>

definition isSpace :: "char \<Rightarrow> bool" where
  "isSpace c = (let n = (of_char c :: nat) in (9 \<le> n \<and> n \<le> 13) \<or> n = 32 \<or> n = 160)"

text \<open>
  The upper-case letters are the codes 65 to 90 and 192 to 222 without 215; the lower-case
  letter is 32 higher, which sets the bit of weight 32 (it is clear in both ranges).
\<close>

definition isUpper :: "char \<Rightarrow> bool" where
  "isUpper c = (let n = (of_char c :: nat)
                in (65 \<le> n \<and> n \<le> 90) \<or> (192 \<le> n \<and> n \<le> 222 \<and> n \<noteq> 215))"

definition lowerChar :: "char \<Rightarrow> char" where
  "lowerChar c =
     (if isUpper c
      then (case c of Char b0 b1 b2 b3 b4 b5 b6 b7 \<Rightarrow> Char b0 b1 b2 b3 b4 True b6 b7)
      else c)"

text \<open>\<open>s.toLowerCase()\<close>\<close>

definition toLowerCase :: "string \<Rightarrow> string" where
  "toLowerCase s = map lowerChar s"

text \<open>\<open>s.replace(/\s+/g, '')\<close>\<close>

definition stripSpaces :: "string \<Rightarrow> string" where
  "stripSpaces s = filter (\<lambda>c. \<not> isSpace c) s"

text \<open>\<open>s.trim()\<close>\<close>

definition trim :: "string \<Rightarrow> string" where
  "trim s = rev (dropWhile isSpace (rev (dropWhile isSpace s)))"

text \<open>\<open>s.startsWith(p)\<close> and \<open>s.includes(p)\<close>: \<open>p\<close> occurs in \<open>s\<close> as a contiguous run.\<close>

fun startsWith :: "string \<Rightarrow> string \<Rightarrow> bool" where
  "startsWith s [] = True"
| "startsWith [] (b # p) = False"
| "startsWith (a # s) (b # p) = (a = b \<and> startsWith s p)"

fun includesStr :: "string \<Rightarrow> string \<Rightarrow> bool" where
  "includesStr [] p = (p = [])"
| "includesStr (a # s) p = (startsWith (a # s) p \<or> includesStr s p)"

text \<open>\<open>path.split('/').pop()\<close>: the text after the last slash, the whole text when there is none.\<close>

definition lastSegment :: "string \<Rightarrow> string" where
  "lastSegment p = rev (takeWhile (\<lambda>c. c \<noteq> CHR ''/'') (rev p))"

text \<open>The decimal text of an array index, as a template literal prints it.\<close>

definition digit :: "nat \<Rightarrow> char" where
  "digit d = ''0123456789'' ! d"

fun showNat :: "nat \<Rightarrow> string" where
  "showNat n =
     (if n < 10 then [digit n]
      else showNat (n div 10) @ [digit (n mod 10)])"

declare showNat.simps [simp del]

text \<open>
  A JavaScript \<open>number\<close>. A finite double is the real number it denotes (the sign of
  zero is not modelled); the three values that \<open>Number.isFinite\<close> rejects are kept apart.
\<close>

datatype number = Finite real | PosInfinity | NegInfinity | NaN

fun isFinite :: "number \<Rightarrow> bool" where
  "isFinite (Finite r) = True"
| "isFinite PosInfinity = False"
| "isFinite NegInfinity = False"
| "isFinite NaN = False"

text \<open>
  \<open>a - b\<close> on numbers. The difference of two finite doubles is the exact difference
  rounded to a double, or an infinity when it is out of range. The rounding \<open>rnd\<close> is
  the platform's and is left open; it is applied to the exact real difference.
\<close>

fun minus_number :: "(real \<Rightarrow> number) \<Rightarrow> number \<Rightarrow> number \<Rightarrow> number" where
  "minus_number rnd (Finite a) (Finite b) = rnd (a - b)"
| "minus_number rnd NaN b = NaN"
| "minus_number rnd a NaN = NaN"
| "minus_number rnd PosInfinity PosInfinity = NaN"
| "minus_number rnd NegInfinity NegInfinity = NaN"
| "minus_number rnd PosInfinity b = PosInfinity"
| "minus_number rnd NegInfinity b = NegInfinity"
| "minus_number rnd (Finite a) PosInfinity = NegInfinity"
| "minus_number rnd (Finite a) NegInfinity = PosInfinity"

text \<open>\<open>Math.max(0, x)\<close>\<close>

fun max0 :: "number \<Rightarrow> number" where
  "max0 (Finite r) = Finite (max 0 r)"
| "max0 PosInfinity = PosInfinity"
| "max0 NegInfinity = Finite 0"
| "max0 NaN = NaN"

text \<open>
  A value produced by \<open>JSON.parse\<close>. The entries of an object are listed in the order in
  which \<open>Object.entries\<close> yields them, and no key occurs twice.
\<close>

datatype json =
    JNull
  | JBool bool
  | JNumber number
  | JString string
  | JArray "json list"
  | JObject "(string \<times> json) list"

text \<open>
  \<open>o.k\<close> for a value \<open>o\<close> that is not \<open>null\<close>; \<open>None\<close> is \<open>undefined\<close>. Only the
  properties \<open>data\<close>, \<open>unpulsed\<close>, \<open>totals\<close>, \<open>keys\<close>, \<open>clicks\<close>, \<open>scrolls\<close> and
  \<open>uptimeSeconds\<close> are ever read. Numbers, booleans and strings have none of them. An
  array has \<open>keys\<close>, a function of its prototype; it is only read as a counter, where
  whatever is not a number counts as missing, so \<open>None\<close> stands for it as well.
\<close>

fun member :: "json \<Rightarrow> string \<Rightarrow> json option" where
  "member (JObject kvs) k = map_of kvs k"
| "member j k = None"

text \<open>The left operand of \<open>??\<close> counts when it is neither \<open>undefined\<close> nor \<open>null\<close>.\<close>

fun nullish :: "json option \<Rightarrow> bool" where
  "nullish None = True"
| "nullish (Some JNull) = True"
| "nullish (Some j) = False"

section \<open>Fetching the raw snapshot: the diagnostic snippet\<close>

definition safeSnippet :: "string \<Rightarrow> nat \<Rightarrow> string" where
  "safeSnippet text maxLen =
     (let s = trim text
      in if length s \<le> maxLen then s else take maxLen s @ ''...'')"

text \<open>The default of the parameter \<open>maxLen\<close>, which every call of the program uses.\<close>

definition defaultMaxLen :: nat where
  "defaultMaxLen = 200"

section \<open>The numeric-field locator and the counter extractor\<close>

datatype NumericField = Keys | Clicks | Scrolls | UptimeSeconds

fun FIELD_PATTERNS :: "NumericField \<Rightarrow> string list" where
  "FIELD_PATTERNS Keys = [''keys'', ''keycount'', ''keystrokes'']"
| "FIELD_PATTERNS Clicks = [''clicks'', ''mouseclicks'']"
| "FIELD_PATTERNS Scrolls = [''scrolls'', ''scrollcount'', ''mousescrolls'']"
| "FIELD_PATTERNS UptimeSeconds = [''uptime'', ''uptimeseconds'', ''seconds'']"

definition TOTALS_PATH_HINTS :: "string list" where
  "TOTALS_PATH_HINTS = [''totals'', ''total'', ''accounttotals'']"

definition UNPULSED_PATH_HINTS :: "string list" where
  "UNPULSED_PATH_HINTS = [''unpulsed'', ''unpulse'', ''pending'']"

text \<open>The section asked for, and the section a candidate is tagged with.\<close>

datatype report_section = Totals | Unpulsed

datatype candidate_section = CTotals | CUnpulsed | CNone

record candidate =
  c_value :: number
  c_path :: string
  c_pathLower :: string
  c_section :: candidate_section

definition pathScore :: "string \<Rightarrow> string list \<Rightarrow> int" where
  "pathScore pathLower hints =
     fold (\<lambda>h score. if includesStr pathLower h then score + 10 else score) hints 0"

text \<open>
  The key of a leaf and the test \<open>patterns.some((p) => key.includes(p) || p.includes(key))\<close>.
\<close>

definition leafKey :: "string \<Rightarrow> string" where
  "leafKey path = stripSpaces (toLowerCase (lastSegment path))"

definition keyMatches :: "string \<Rightarrow> string list \<Rightarrow> bool" where
  "keyMatches key patterns = list_ex (\<lambda>p. includesStr key p \<or> includesStr p key) patterns"

definition sectionOf :: "string \<Rightarrow> candidate_section" where
  "sectionOf pathLower =
     (if includesStr pathLower ''unpulse'' \<or> includesStr pathLower ''pending'' then CUnpulsed
      else if includesStr pathLower ''total'' then CTotals
      else CNone)"

text \<open>
  \<open>collectCandidates\<close> pushes onto \<open>acc\<close>; the model returns the extended list.
  \<open>collectItems\<close> is the \<open>forEach\<close> over an array from index \<open>i\<close> on, and
  \<open>collectEntries\<close> the loop over \<open>Object.entries\<close>.
\<close>

function (sequential) collectCandidates ::
    "json \<Rightarrow> string \<Rightarrow> string \<Rightarrow> NumericField \<Rightarrow> string list \<Rightarrow> candidate list \<Rightarrow> candidate list"
  and collectItems ::
    "json list \<Rightarrow> nat \<Rightarrow> string \<Rightarrow> string \<Rightarrow> NumericField \<Rightarrow> string list \<Rightarrow> candidate list \<Rightarrow> candidate list"
  and collectEntries ::
    "(string \<times> json) list \<Rightarrow> string \<Rightarrow> string \<Rightarrow> NumericField \<Rightarrow> string list \<Rightarrow> candidate list \<Rightarrow> candidate list"
where
  "collectCandidates JNull path pathLower field patterns acc = acc"
| "collectCandidates (JNumber n) path pathLower field patterns acc =
     (if isFinite n then
        (if keyMatches (leafKey path) patterns
         then acc @ [\<lparr>c_value = n, c_path = path, c_pathLower = pathLower,
                       c_section = sectionOf pathLower\<rparr>]
         else acc)
      else acc)"
| "collectCandidates (JArray items) path pathLower field patterns acc =
     collectItems items 0 path pathLower field patterns acc"
| "collectCandidates (JObject entries) path pathLower field patterns acc =
     collectEntries entries path pathLower field patterns acc"
| "collectCandidates (JBool b) path pathLower field patterns acc = acc"
| "collectCandidates (JString s) path pathLower field patterns acc = acc"
| "collectItems [] i path pathLower field patterns acc = acc"
| "collectItems (item # items) i path pathLower field patterns acc =
     collectItems items (Suc i) path pathLower field patterns
       (collectCandidates item (path @ ''/'' @ showNat i) pathLower field patterns acc)"
| "collectEntries [] path pathLower field patterns acc = acc"
| "collectEntries ((k, v) # entries) path pathLower field patterns acc =
     collectEntries entries path pathLower field patterns
       (collectCandidates v
          (if path \<noteq> [] then path @ ''/'' @ k else k)
          (stripSpaces (pathLower @ ''/'' @ toLowerCase k))
          field patterns acc)"
  by pat_completeness auto
termination
  by (relation "measure (\<lambda>x. case x of
        Inl (j, path, pathLower, field, patterns, acc) \<Rightarrow> size j
      | Inr (Inl (items, i, path, pathLower, field, patterns, acc)) \<Rightarrow> size_list size items
      | Inr (Inr (entries, path, pathLower, field, patterns, acc)) \<Rightarrow>
          size_list (size_prod (\<lambda>k. 0) size) entries)") auto

text \<open>
  \<open>[...xs].sort((a, b) => score(b) - score(a))\<close>: the sort is stable and orders by
  descending score. \<open>first xs\<close> is \<open>xs[0] ?? null\<close>.
\<close>

definition sortByScoreDesc :: "('a \<Rightarrow> int) \<Rightarrow> 'a list \<Rightarrow> 'a list" where
  "sortByScoreDesc score xs = sort_key (\<lambda>x. - score x) xs"

definition first :: "'a list \<Rightarrow> 'a option" where
  "first xs = (case xs of [] \<Rightarrow> None | x # rest \<Rightarrow> Some x)"

definition pickBest :: "candidate list \<Rightarrow> report_section \<Rightarrow> candidate option" where
  "pickBest candidates sec =
     (let filtered = filter (\<lambda>c. if sec = Totals then c_section c = CTotals
                                    else c_section c = CUnpulsed) candidates
      in if length filtered = 0 then
           (let any = filter (\<lambda>c. c_section c = CNone) candidates
            in if sec = Totals then
                 (let totalsScore = (\<lambda>c. pathScore (c_pathLower c) TOTALS_PATH_HINTS);
                      byTotals = sortByScoreDesc totalsScore candidates
                  in first byTotals)
               else
                 (let unpulsedScore = (\<lambda>c. pathScore (c_pathLower c) UNPULSED_PATH_HINTS);
                      byUnpulsed = sortByScoreDesc unpulsedScore candidates
                  in first byUnpulsed))
         else
           (let hints = (if sec = Totals then TOTALS_PATH_HINTS else UNPULSED_PATH_HINTS);
                ranked = sortByScoreDesc (\<lambda>c. pathScore (c_pathLower c) hints) filtered
            in first ranked))"

text \<open>A record of the four counters; \<open>number | null\<close> is \<open>number option\<close>.\<close>

record 'a counter_set =
  keys :: 'a
  clicks :: 'a
  scrolls :: 'a
  uptimeSeconds :: 'a

fun setField :: "NumericField \<Rightarrow> 'a \<Rightarrow> 'a counter_set \<Rightarrow> 'a counter_set" where
  "setField Keys v r = r\<lparr>keys := v\<rparr>"
| "setField Clicks v r = r\<lparr>clicks := v\<rparr>"
| "setField Scrolls v r = r\<lparr>scrolls := v\<rparr>"
| "setField UptimeSeconds v r = r\<lparr>uptimeSeconds := v\<rparr>"

definition numericFields :: "NumericField list" where
  "numericFields = [Keys, Clicks, Scrolls, UptimeSeconds]"

text \<open>
  A fresh \<open>acc\<close> filled by \<open>collectCandidates(data, '', '', field, FIELD_PATTERNS[field], acc)\<close>:
  the two lines that \<open>extractSection\<close> and \<open>main\<close> both run before \<open>pickBest\<close>.
\<close>

definition candidatesFor :: "json \<Rightarrow> NumericField \<Rightarrow> candidate list" where
  "candidatesFor data field = collectCandidates data [] [] field (FIELD_PATTERNS field) []"

definition extractSection :: "json \<Rightarrow> report_section \<Rightarrow> number option counter_set" where
  "extractSection data sec =
     fold (\<lambda>field result.
             (case pickBest (candidatesFor data field) sec of
                Some best \<Rightarrow> setField field (Some (c_value best)) result
              | None \<Rightarrow> result))
          numericFields
          \<lparr>keys = None, clicks = None, scrolls = None, uptimeSeconds = None\<rparr>"

text \<open>The objects the two programs write.\<close>

record debug_info =
  topLevelKeys :: "string list"
  detectedPaths :: "(string \<times> string option) list"

record whatpulse_output =
  o_updatedAt :: string
  o_source :: string
  totals :: "number option counter_set"
  unpulsed :: "number option counter_set option"
  debug :: debug_info

record snapshot =
  capturedAt :: string
  s_source :: string
  counters :: "number counter_set"

record weekly_output =
  w_updatedAt :: string
  w_source :: string
  w_window :: string
  w_range :: "string option"
  w_counters :: "number counter_set option"
  w_note :: "string option"

text \<open>
  What the program takes from its platform: the clock (\<open>new Date().toISOString()\<close>),
  the rounding of an exact arithmetic result to a double (or to an infinity),
  \<open>JSON.parse\<close> (\<open>None\<close> when it throws) and \<open>JSON.stringify(v, null, 2)\<close> at
  the three types it is called at. The ledger text is parsed into the source's own type:
  the result is either not an array, or an array whose elements are Snapshots, as the
  unchecked cast \<open>parsed as Snapshot[]\<close> of the source takes them to be.
  The theorems below hold for every such platform.
\<close>

datatype ledger_value = NotAnArray | Snapshots "snapshot list"

record platform =
  now :: string
  roundNumber :: "real \<Rightarrow> number"
  parseJson :: "string \<Rightarrow> json option"
  parseSnapshots :: "string \<Rightarrow> ledger_value option"
  stringifyOutput :: "whatpulse_output \<Rightarrow> string"
  stringifySnapshots :: "snapshot list \<Rightarrow> string"
  stringifyWeekly :: "weekly_output \<Rightarrow> string"

text \<open>
  The files, by their path below the project root: a path that is not bound is a file that
  does not exist. Directories are not modelled, so \<open>mkdir\<close> leaves no trace, and reading
  fails only for a missing file.
\<close>

type_synonym files = "string \<rightharpoonup> string"

definition rawPath :: string where
  "rawPath = ''raw-data/whatpulse-raw.json''"

definition apiPath :: string where
  "apiPath = ''api/whatpulse.json''"

definition snapshotsPath :: string where
  "snapshotsPath = ''raw-data/whatpulse-weekly-snapshots.json''"

definition weeklyPath :: string where
  "weeklyPath = ''api/whatpulse-weekly.json''"

definition newline :: string where
  "newline = [CHR 0x0A]"

text \<open>
  A run that fails ends with exit status 1: \<open>Fatal msg\<close> after the message \<open>msg\<close>,
  \<open>TypeError\<close> when a property of \<open>null\<close> is read.
\<close>

datatype error = Fatal string | TypeError

text \<open>\<open>a ?? b\<close>\<close>

fun coalesce :: "json option \<Rightarrow> json \<Rightarrow> json" where
  "coalesce None b = b"
| "coalesce (Some JNull) b = b"
| "coalesce (Some j) b = j"

fun fieldName :: "NumericField \<Rightarrow> string" where
  "fieldName Keys = ''keys''"
| "fieldName Clicks = ''clicks''"
| "fieldName Scrolls = ''scrolls''"
| "fieldName UptimeSeconds = ''uptimeSeconds''"

definition detectPath :: "json \<Rightarrow> report_section \<Rightarrow> NumericField \<Rightarrow> string \<times> string option" where
  "detectPath data sec field =
     (let best = pickBest (candidatesFor data field) sec;
          key = (if sec = Totals then ''totals.'' @ fieldName field
                 else ''unpulsed.'' @ fieldName field)
      in (key, map_option c_path best))"

text \<open>The part of \<open>main\<close> of \<open>build-whatpulse.ts\<close> from the unwrapped data to the output object.\<close>

definition buildOutput :: "string \<Rightarrow> json \<Rightarrow> whatpulse_output" where
  "buildOutput timestamp data =
     (let topLevel = (case data of JObject entries \<Rightarrow> map fst entries | _ \<Rightarrow> []);
          totalsSection = extractSection data Totals;
          unpulsedSection = extractSection data Unpulsed;
          hasUnpulsed = (keys unpulsedSection \<noteq> None \<or> clicks unpulsedSection \<noteq> None \<or>
                         scrolls unpulsedSection \<noteq> None \<or> uptimeSeconds unpulsedSection \<noteq> None);
          detected = concat (map (\<lambda>sec. map (detectPath data sec) numericFields) [Totals, Unpulsed])
      in \<lparr>o_updatedAt = timestamp,
          o_source = ''whatpulse-client-api'',
          totals = totalsSection,
          unpulsed = (if hasUnpulsed then Some unpulsedSection else None),
          debug = \<lparr>topLevelKeys = topLevel, detectedPaths = detected\<rparr>\<rparr>)"

text \<open>
  \<open>normalize\<close> is \<open>main\<close> after the raw file has been parsed: \<open>parsed.data ?? parsed\<close>,
  which throws when \<open>parsed\<close> is \<open>null\<close>, and then the output object.
\<close>

definition normalize :: "string \<Rightarrow> json \<Rightarrow> error + whatpulse_output" where
  "normalize timestamp parsed =
     (if parsed = JNull then Inl TypeError
      else Inr (buildOutput timestamp (coalesce (member parsed ''data'') parsed)))"

definition main_whatpulse :: "platform \<Rightarrow> files \<Rightarrow> error option \<times> files" where
  "main_whatpulse P fs =
     (case fs rawPath of
        None \<Rightarrow> (Some (Fatal ''raw-data/whatpulse-raw.json not found. Run whatpulse:fetch first.''), fs)
      | Some raw \<Rightarrow>
          (case parseJson P raw of
             None \<Rightarrow> (Some (Fatal ''raw-data/whatpulse-raw.json is not valid JSON.''), fs)
           | Some parsed \<Rightarrow>
               (case normalize (now P) parsed of
                  Inl e \<Rightarrow> (Some e, fs)
                | Inr output \<Rightarrow>
                    (None, fs(apiPath \<mapsto> stringifyOutput P output @ newline)))))"

section \<open>The snapshot ledger and the weekly delta\<close>

fun toNumber :: "json option \<Rightarrow> number option" where
  "toNumber (Some (JNumber n)) = (if isFinite n then Some n else None)"
| "toNumber v = None"

text \<open>
  \<open>api.unpulsed ?? api.totals ?? {}\<close> throws when \<open>api\<close> is \<open>null\<close>. The two \<open>??\<close>
  are nested to the right here, which yields the same value.
\<close>

definition getCounters :: "json \<Rightarrow> error + number counter_set" where
  "getCounters api =
     (if api = JNull then Inl TypeError
      else
        (let prefer = coalesce (member api ''unpulsed'') (coalesce (member api ''totals'') (JObject []))
         in case (toNumber (member prefer ''keys''), toNumber (member prefer ''clicks''),
                  toNumber (member prefer ''scrolls''), toNumber (member prefer ''uptimeSeconds'')) of
              (Some k, Some c, Some s, Some u) \<Rightarrow>
                Inr \<lparr>keys = k, clicks = c, scrolls = s, uptimeSeconds = u\<rparr>
            | _ \<Rightarrow>
                Inl (Fatal (''api/whatpulse.json missing counters. Prefer unpulsed; fallback totals. '' @
                            ''Need keys, clicks, scrolls, uptimeSeconds.''))))"

definition delta :: "platform \<Rightarrow> number counter_set \<Rightarrow> number counter_set \<Rightarrow> number counter_set" where
  "delta P prev current =
     \<lparr>keys = max0 (minus_number (roundNumber P) (keys current) (keys prev)),
      clicks = max0 (minus_number (roundNumber P) (clicks current) (clicks prev)),
      scrolls = max0 (minus_number (roundNumber P) (scrolls current) (scrolls prev)),
      uptimeSeconds =
        max0 (minus_number (roundNumber P) (uptimeSeconds current) (uptimeSeconds prev))\<rparr>"

text \<open>The ledger as \<open>main\<close> reads it: \<open>[]\<close> unless the file holds an array.\<close>

definition readSnapshots :: "platform \<Rightarrow> files \<Rightarrow> snapshot list" where
  "readSnapshots P fs =
     (case fs snapshotsPath of
        None \<Rightarrow> []
      | Some raw \<Rightarrow>
          (case parseSnapshots P raw of
             None \<Rightarrow> []
           | Some NotAnArray \<Rightarrow> []
           | Some (Snapshots parsed) \<Rightarrow> parsed))"

text \<open>The output object of \<open>main\<close>, from the ledger after the append.\<close>

definition weeklyOutput :: "platform \<Rightarrow> string \<Rightarrow> snapshot list \<Rightarrow> weekly_output" where
  "weeklyOutput P updatedAt snapshots =
     (if length snapshots < 2 then
        \<lparr>w_updatedAt = updatedAt, w_source = ''whatpulse-client-api'', w_window = ''weekly'',
         w_range = None, w_counters = None,
         w_note = Some ''Not enough history yet. Run again next week to compute deltas.''\<rparr>
      else
        (let prev = snapshots ! (length snapshots - 2);
             current = snapshots ! (length snapshots - 1);
             range = capturedAt prev @ ''/'' @ capturedAt current;
             countersDelta = delta P (counters prev) (counters current)
         in \<lparr>w_updatedAt = updatedAt, w_source = ''whatpulse-client-api'', w_window = ''weekly'',
             w_range = Some range, w_counters = Some countersDelta, w_note = None\<rparr>))"

definition main_weekly :: "platform \<Rightarrow> files \<Rightarrow> error option \<times> files" where
  "main_weekly P fs =
     (case fs apiPath of
        None \<Rightarrow> (Some (Fatal ''api/whatpulse.json not found. Run whatpulse:build first.''), fs)
      | Some apiRaw \<Rightarrow>
          (case parseJson P apiRaw of
             None \<Rightarrow> (Some (Fatal ''api/whatpulse.json is not valid JSON.''), fs)
           | Some api \<Rightarrow>
               (case getCounters api of
                  Inl e \<Rightarrow> (Some e, fs)
                | Inr cs \<Rightarrow>
                    (let stamp = now P;
                         snap = \<lparr>capturedAt = stamp, s_source = ''whatpulse-client-api'',
                                 counters = cs\<rparr>;
                         snapshots = readSnapshots P fs @ [snap];
                         fs1 = fs(snapshotsPath \<mapsto> stringifySnapshots P snapshots @ newline);
                         output = weeklyOutput P stamp snapshots
                     in (None, fs1(weeklyPath \<mapsto> stringifyWeekly P output @ newline))))))"

section \<open>Notions used to state the properties\<close>

text \<open>
  \<open>leafAt doc path pathLower p pl n\<close>: the document \<open>doc\<close>, met by the traversal under
  the path \<open>path\<close> and the lower-cased path \<open>pathLower\<close>, holds the number \<open>n\<close> at a
  leaf, and the traversal meets that leaf under the path \<open>p\<close> and the lower-cased path
  \<open>pl\<close>. An array element extends the path by its index and leaves the lower-cased path
  as it is; an object entry extends the path by its key and the lower-cased path by the
  key in lower case, with all whitespace removed.
\<close>

inductive leafAt :: "json \<Rightarrow> string \<Rightarrow> string \<Rightarrow> string \<Rightarrow> string \<Rightarrow> number \<Rightarrow> bool" where
  leaf: "leafAt (JNumber n) path pathLower path pathLower n"
| item: "i < length items \<Longrightarrow>
         leafAt (items ! i) (path @ ''/'' @ showNat i) pathLower p pl n \<Longrightarrow>
         leafAt (JArray items) path pathLower p pl n"
| entry: "(k, v) \<in> set entries \<Longrightarrow>
          leafAt v (if path \<noteq> [] then path @ ''/'' @ k else k)
                   (stripSpaces (pathLower @ ''/'' @ toLowerCase k)) p pl n \<Longrightarrow>
          leafAt (JObject entries) path pathLower p pl n"

text \<open>What holds of every candidate that a traversal adds.\<close>

definition found :: "string list \<Rightarrow> json \<Rightarrow> string \<Rightarrow> string \<Rightarrow> candidate \<Rightarrow> bool" where
  "found patterns doc path pathLower c \<longleftrightarrow>
     leafAt doc path pathLower (c_path c) (c_pathLower c) (c_value c) \<and>
     isFinite (c_value c) \<and> keyMatches (leafKey (c_path c)) patterns \<and>
     c_section c = sectionOf (c_pathLower c)"

text \<open>
  The section that \<open>getCounters\<close> is to read: \<open>unpulsed\<close>, and \<open>totals\<close> when
  \<open>unpulsed\<close> is missing or \<open>null\<close>. \<open>counterOf\<close> is the counter that a section yields
  under a name: a finite number, or nothing.
\<close>

definition preferredSection :: "json \<Rightarrow> json option" where
  "preferredSection api =
     (if nullish (member api ''unpulsed'') then member api ''totals'' else member api ''unpulsed'')"

definition counterOf :: "json option \<Rightarrow> string \<Rightarrow> number option" where
  "counterOf sec name = (case sec of None \<Rightarrow> None | Some j \<Rightarrow> toNumber (member j name))"

definition hasAllCounters :: "json option \<Rightarrow> bool" where
  "hasAllCounters sec =
     (counterOf sec ''keys'' \<noteq> None \<and> counterOf sec ''clicks'' \<noteq> None \<and>
      counterOf sec ''scrolls'' \<noteq> None \<and> counterOf sec ''uptimeSeconds'' \<noteq> None)"

text \<open>A counter record whose four fields are finite numbers.\<close>

definition resolved :: "real counter_set \<Rightarrow> number counter_set" where
  "resolved r =
     \<lparr>keys = Finite (keys r), clicks = Finite (clicks r), scrolls = Finite (scrolls r),
      uptimeSeconds = Finite (uptimeSeconds r)\<rparr>"

text \<open>
  \<open>x >= 0\<close> and \<open>x <= 0\<close> on numbers; both are false of \<open>NaN\<close>. A rounding keeps
  the sign when it sends no real to \<open>NaN\<close>, none below zero to a number above zero and
  none above zero to a number below zero. The rounding of doubles does: it is monotone
  and leaves zero as it is.
\<close>

fun nonNegative :: "number \<Rightarrow> bool" where
  "nonNegative (Finite r) = (0 \<le> r)"
| "nonNegative PosInfinity = True"
| "nonNegative NegInfinity = False"
| "nonNegative NaN = False"

fun nonPositive :: "number \<Rightarrow> bool" where
  "nonPositive (Finite r) = (r \<le> 0)"
| "nonPositive PosInfinity = False"
| "nonPositive NegInfinity = True"
| "nonPositive NaN = False"

definition keepsSign :: "(real \<Rightarrow> number) \<Rightarrow> bool" where
  "keepsSign rnd \<longleftrightarrow>
     (\<forall>r. (r \<le> 0 \<longrightarrow> nonPositive (rnd r)) \<and> (0 \<le> r \<longrightarrow> nonNegative (rnd r)))"

text \<open>
  The fallback of \<open>pickBest\<close> as the specification words it: the candidates tagged
  \<open>none\<close>, ranked by their score against the hint list of the other section.
\<close>

definition fallbackAsClaimed :: "candidate list \<Rightarrow> report_section \<Rightarrow> candidate option" where
  "fallbackAsClaimed candidates sec =
     first (sortByScoreDesc
              (\<lambda>c. pathScore (c_pathLower c)
                     (case sec of Totals \<Rightarrow> UNPULSED_PATH_HINTS | Unpulsed \<Rightarrow> TOTALS_PATH_HINTS))
              (filter (\<lambda>c. c_section c = CNone) candidates))"

section \<open>Scenario inputs\<close>

text \<open>The raw capture of end-to-end scenario A, and the data inside it.\<close>

definition scenarioA_data :: json where
  "scenarioA_data =
     JObject [(''stats'', JObject [(''totals'', JObject
       [(''keys'', JNumber (Finite 500)), (''clicks'', JNumber (Finite 300)),
        (''scrolls'', JNumber (Finite 10)), (''uptime'', JNumber (Finite 7200))])])]"

definition scenarioA :: json where
  "scenarioA = JObject [(''data'', scenarioA_data)]"

text \<open>A document whose only counter lies below a key that names both sections.\<close>

definition pendingTotals :: json where
  "pendingTotals = JObject [(''Pending Totals'', JArray [JObject [(''Keys'', JNumber (Finite 5))]])]"

text \<open>
  The document \<open>{"totals": {"keys": 500}, "keys": 7}\<close>: one counter of keys below
  \<open>totals\<close> and one at the top.
\<close>

definition totalsAndBareKeys :: json where
  "totalsAndBareKeys =
     JObject [(''totals'', JObject [(''keys'', JNumber (Finite 500))]),
              (''keys'', JNumber (Finite 7))]"

text \<open>
  Two normalized reports: one with every counter of \<open>totals\<close> null and \<open>unpulsed\<close> null,
  one with \<open>unpulsed\<close> null and four counters in \<open>totals\<close>.
\<close>

definition unresolvableReport :: json where
  "unresolvableReport =
     JObject [(''updatedAt'', JString ''t2''), (''source'', JString ''whatpulse-client-api''),
              (''totals'', JObject [(''keys'', JNull), (''clicks'', JNull), (''scrolls'', JNull),
                                    (''uptimeSeconds'', JNull)]),
              (''unpulsed'', JNull)]"

definition totalsOnlyReport :: json where
  "totalsOnlyReport =
     JObject [(''updatedAt'', JString ''t2''), (''source'', JString ''whatpulse-client-api''),
              (''totals'', JObject [(''keys'', JNumber (Finite 150)), (''clicks'', JNumber (Finite 250)),
                                    (''scrolls'', JNumber (Finite 350)),
                                    (''uptimeSeconds'', JNumber (Finite 450))]),
              (''unpulsed'', JNull)]"

text \<open>The two snapshots of end-to-end scenario B: every counter grows by 50.\<close>

definition snapshotT1 :: snapshot where
  "snapshotT1 =
     \<lparr>capturedAt = ''t1'', s_source = ''whatpulse-client-api'',
      counters = resolved \<lparr>keys = 100, clicks = 200, scrolls = 300, uptimeSeconds = 400\<rparr>\<rparr>"

definition snapshotT2 :: snapshot where
  "snapshotT2 =
     \<lparr>capturedAt = ''t2'', s_source = ''whatpulse-client-api'',
      counters = resolved \<lparr>keys = 150, clicks = 250, scrolls = 350, uptimeSeconds = 450\<rparr>\<rparr>"

text \<open>
  A rounding that is exact inside the range of doubles and gives an infinity outside it.
\<close>

definition exactInRange :: "real \<Rightarrow> number" where
  "exactInRange r =
     (if 2 ^ 1024 \<le> r then PosInfinity
      else if r \<le> - (2 ^ 1024) then NegInfinity
      else Finite r)"

text \<open>
  A platform for runs at the time \<open>t2\<close>: the API file parses to \<open>api\<close>, the ledger file
  to \<open>ledger\<close>, and a ledger is printed as one mark per snapshot. The files are the API
  file and the ledger file.
\<close>

definition samplePlatform :: "json \<Rightarrow> ledger_value option \<Rightarrow> platform" where
  "samplePlatform api ledger =
     \<lparr>now = ''t2'',
      roundNumber = exactInRange,
      parseJson = (\<lambda>raw. Some api),
      parseSnapshots = (\<lambda>raw. ledger),
      stringifyOutput = (\<lambda>output. ''report''),
      stringifySnapshots = (\<lambda>snapshots. replicate (length snapshots) (CHR ''#'')),
      stringifyWeekly = (\<lambda>output. ''weekly'')\<rparr>"

definition sampleFiles :: files where
  "sampleFiles = [apiPath \<mapsto> ''report text'', snapshotsPath \<mapsto> ''ledger text'']"

section \<open>Evaluation lemmas\<close>

lemmas key_defs =
  leafKey_def lastSegment_def toLowerCase_def stripSpaces_def lowerChar_def isUpper_def
  isSpace_def keyMatches_def sectionOf_def

lemma includesStr_Nil [simp]: "includesStr s []"
  by (cases s) simp_all

lemma pickBest_single:
  "pickBest [c] sec = Some c"
  by (cases sec) (simp_all add: pickBest_def sortByScoreDesc_def first_def Let_def)

lemma scenarioA_unwrapped:
  "scenarioA \<noteq> JNull \<and> coalesce (member scenarioA ''data'') scenarioA = scenarioA_data"
  by (simp add: scenarioA_def scenarioA_data_def)

lemma scenarioA_candidates:
  "candidatesFor scenarioA_data field =
     [\<lparr>c_value = (case field of Keys \<Rightarrow> Finite 500 | Clicks \<Rightarrow> Finite 300
                     | Scrolls \<Rightarrow> Finite 10 | UptimeSeconds \<Rightarrow> Finite 7200),
       c_path = ''stats/totals/'' @ (case field of UptimeSeconds \<Rightarrow> ''uptime'' | f \<Rightarrow> fieldName f),
       c_pathLower = ''/stats/totals/'' @ (case field of UptimeSeconds \<Rightarrow> ''uptime'' | f \<Rightarrow> fieldName f),
       c_section = CTotals\<rparr>]"
  by (cases field) (simp_all add: candidatesFor_def scenarioA_data_def key_defs)

lemma bare_number_candidates:
  "candidatesFor (JNumber (Finite r)) field =
     [\<lparr>c_value = Finite r, c_path = [], c_pathLower = [], c_section = CNone\<rparr>]"
  by (cases field) (simp_all add: candidatesFor_def key_defs)

section \<open>The traversal finds exactly the matching finite leaves\<close>

text \<open>
  The leaf relation by cases of the document, which is also how it is computed: nothing
  below a null, a boolean or a string, the number itself, some element of an array, some
  entry of an object.
\<close>

inductive_cases leafAt_JNullE: "leafAt JNull path pathLower p pl n"
inductive_cases leafAt_JBoolE: "leafAt (JBool b) path pathLower p pl n"
inductive_cases leafAt_JStringE: "leafAt (JString s) path pathLower p pl n"
inductive_cases leafAt_JNumberE: "leafAt (JNumber m) path pathLower p pl n"
inductive_cases leafAt_JArrayE: "leafAt (JArray items) path pathLower p pl n"
inductive_cases leafAt_JObjectE: "leafAt (JObject entries) path pathLower p pl n"

lemma leafAt_code [code]:
  "leafAt JNull path pathLower p pl n \<longleftrightarrow> False"
  "leafAt (JBool b) path pathLower p pl n \<longleftrightarrow> False"
  "leafAt (JString s) path pathLower p pl n \<longleftrightarrow> False"
  "leafAt (JNumber m) path pathLower p pl n \<longleftrightarrow> p = path \<and> pl = pathLower \<and> n = m"
  "leafAt (JArray items) path pathLower p pl n \<longleftrightarrow>
     (\<exists>i\<in>{0..<length items}. leafAt (items ! i) (path @ ''/'' @ showNat i) pathLower p pl n)"
  "leafAt (JObject entries) path pathLower p pl n \<longleftrightarrow>
     (\<exists>(k, v)\<in>set entries.
         leafAt v (if path \<noteq> [] then path @ ''/'' @ k else k)
                  (stripSpaces (pathLower @ ''/'' @ toLowerCase k)) p pl n)"
proof -
  show "leafAt JNull path pathLower p pl n \<longleftrightarrow> False"
    by (blast elim: leafAt_JNullE)
  show "leafAt (JBool b) path pathLower p pl n \<longleftrightarrow> False"
    by (blast elim: leafAt_JBoolE)
  show "leafAt (JString s) path pathLower p pl n \<longleftrightarrow> False"
    by (blast elim: leafAt_JStringE)
  show "leafAt (JNumber m) path pathLower p pl n \<longleftrightarrow> p = path \<and> pl = pathLower \<and> n = m"
    by (blast elim: leafAt_JNumberE intro: leafAt.leaf)
  show "leafAt (JArray items) path pathLower p pl n \<longleftrightarrow>
     (\<exists>i\<in>{0..<length items}. leafAt (items ! i) (path @ ''/'' @ showNat i) pathLower p pl n)"
  proof
    assume "leafAt (JArray items) path pathLower p pl n"
    then show "\<exists>i\<in>{0..<length items}. leafAt (items ! i) (path @ ''/'' @ showNat i) pathLower p pl n"
      by (rule leafAt_JArrayE) auto
  next
    assume "\<exists>i\<in>{0..<length items}. leafAt (items ! i) (path @ ''/'' @ showNat i) pathLower p pl n"
    then show "leafAt (JArray items) path pathLower p pl n"
      by (auto intro: leafAt.item)
  qed
  show "leafAt (JObject entries) path pathLower p pl n \<longleftrightarrow>
     (\<exists>(k, v)\<in>set entries.
         leafAt v (if path \<noteq> [] then path @ ''/'' @ k else k)
                  (stripSpaces (pathLower @ ''/'' @ toLowerCase k)) p pl n)"
  proof
    assume "leafAt (JObject entries) path pathLower p pl n"
    then show "\<exists>(k, v)\<in>set entries.
         leafAt v (if path \<noteq> [] then path @ ''/'' @ k else k)
                  (stripSpaces (pathLower @ ''/'' @ toLowerCase k)) p pl n"
      by (rule leafAt_JObjectE) auto
  next
    assume "\<exists>(k, v)\<in>set entries.
         leafAt v (if path \<noteq> [] then path @ ''/'' @ k else k)
                  (stripSpaces (pathLower @ ''/'' @ toLowerCase k)) p pl n"
    then show "leafAt (JObject entries) path pathLower p pl n"
      by (auto intro: leafAt.entry)
  qed
qed

lemma collect_mono:
  "set acc \<subseteq> set (collectCandidates doc path pathLower field patterns acc)"
  "set acc \<subseteq> set (collectItems items i path pathLower field patterns acc)"
  "set acc \<subseteq> set (collectEntries entries path pathLower field patterns acc)"
proof (induction doc path pathLower field patterns acc
         and items i path pathLower field patterns acc
         and entries path pathLower field patterns acc
       rule: collectCandidates_collectItems_collectEntries.induct)
  case (2 n path pathLower field patterns acc)
  show ?case by auto
next
  case (8 item items i path pathLower field patterns acc)
  then show ?case by simp
next
  case (10 k v entries path pathLower field patterns acc)
  then show ?case by simp
qed simp_all

lemma collectItems_nth:
  assumes "i < length items"
    and "\<And>acc. c \<in> set (collectCandidates (items ! i) (path @ ''/'' @ showNat (j + i)) pathLower field patterns acc)"
  shows "c \<in> set (collectItems items j path pathLower field patterns acc)"
  using assms
proof (induction items arbitrary: i j acc)
  case Nil
  then show ?case by simp
next
  case (Cons x xs)
  show ?case
  proof (cases i)
    case 0
    have "c \<in> set (collectCandidates x (path @ ''/'' @ showNat j) pathLower field patterns acc)"
      using Cons.prems(2) [of acc] 0 by simp
    moreover have "set (collectCandidates x (path @ ''/'' @ showNat j) pathLower field patterns acc)
        \<subseteq> set (collectItems xs (Suc j) path pathLower field patterns
             (collectCandidates x (path @ ''/'' @ showNat j) pathLower field patterns acc))"
      by (rule collect_mono(2))
    ultimately show ?thesis by (simp add: subsetD)
  next
    case (Suc i')
    have less: "i' < length xs" using Cons.prems(1) Suc by simp
    have step: "\<And>acc. c \<in> set (collectCandidates (xs ! i') (path @ ''/'' @ showNat (Suc j + i')) pathLower field patterns acc)"
      using Cons.prems(2) Suc by simp
    have "c \<in> set (collectItems xs (Suc j) path pathLower field patterns
             (collectCandidates x (path @ ''/'' @ showNat j) pathLower field patterns acc))"
      using less step by (rule Cons.IH)
    then show ?thesis by simp
  qed
qed

lemma collectEntries_member:
  assumes "(k, v) \<in> set entries"
    and "\<And>acc. c \<in> set (collectCandidates v (if path \<noteq> [] then path @ ''/'' @ k else k)
                    (stripSpaces (pathLower @ ''/'' @ toLowerCase k)) field patterns acc)"
  shows "c \<in> set (collectEntries entries path pathLower field patterns acc)"
  using assms(1)
proof (induction entries arbitrary: acc)
  case Nil
  then show ?case by simp
next
  case (Cons e es)
  show ?case
  proof (cases "e = (k, v)")
    case True
    have "c \<in> set (collectCandidates v (if path \<noteq> [] then path @ ''/'' @ k else k)
                    (stripSpaces (pathLower @ ''/'' @ toLowerCase k)) field patterns acc)"
      by (rule assms(2))
    moreover have "set (collectCandidates v (if path \<noteq> [] then path @ ''/'' @ k else k)
                    (stripSpaces (pathLower @ ''/'' @ toLowerCase k)) field patterns acc)
        \<subseteq> set (collectEntries es path pathLower field patterns
                 (collectCandidates v (if path \<noteq> [] then path @ ''/'' @ k else k)
                    (stripSpaces (pathLower @ ''/'' @ toLowerCase k)) field patterns acc))"
      by (rule collect_mono(3))
    ultimately have "c \<in> set (collectEntries es path pathLower field patterns
                 (collectCandidates v (if path \<noteq> [] then path @ ''/'' @ k else k)
                    (stripSpaces (pathLower @ ''/'' @ toLowerCase k)) field patterns acc))"
      by (rule rev_subsetD)
    then show ?thesis unfolding True by simp
  next
    case False
    then have "(k, v) \<in> set es" using Cons.prems by auto
    then have "\<And>acc. c \<in> set (collectEntries es path pathLower field patterns acc)"
      by (rule Cons.IH)
    then show ?thesis by (cases e) simp
  qed
qed

lemma leaf_is_candidate:
  assumes "leafAt doc path pathLower p pl n" "isFinite n" "keyMatches (leafKey p) patterns"
  shows "\<lparr>c_value = n, c_path = p, c_pathLower = pl, c_section = sectionOf pl\<rparr>
           \<in> set (collectCandidates doc path pathLower field patterns acc)"
  using assms
proof (induction arbitrary: acc rule: leafAt.induct)
  case (leaf n path pathLower)
  then show ?case by simp
next
  case (item i items path pathLower p pl n)
  have "\<lparr>c_value = n, c_path = p, c_pathLower = pl, c_section = sectionOf pl\<rparr>
          \<in> set (collectItems items 0 path pathLower field patterns acc)"
    by (rule collectItems_nth [OF item.hyps(1)]) (use item.IH item.prems in simp)
  then show ?case by simp
next
  case (entry k v entries path pathLower p pl n)
  have "\<lparr>c_value = n, c_path = p, c_pathLower = pl, c_section = sectionOf pl\<rparr>
          \<in> set (collectEntries entries path pathLower field patterns acc)"
    by (rule collectEntries_member [OF entry.hyps(1)]) (use entry.IH entry.prems in simp)
  then show ?case by simp
qed

lemma candidate_is_leaf_gen:
  "c \<in> set (collectCandidates doc path pathLower field patterns acc) \<Longrightarrow>
     c \<in> set acc \<or> found patterns doc path pathLower c"
  "c \<in> set (collectItems items i path pathLower field patterns acc) \<Longrightarrow>
     c \<in> set acc \<or> (\<exists>m < length items. found patterns (items ! m) (path @ ''/'' @ showNat (i + m)) pathLower c)"
  "c \<in> set (collectEntries entries path pathLower field patterns acc) \<Longrightarrow>
     c \<in> set acc \<or> (\<exists>(k, v) \<in> set entries. found patterns v (if path \<noteq> [] then path @ ''/'' @ k else k)
                    (stripSpaces (pathLower @ ''/'' @ toLowerCase k)) c)"
proof (induction doc path pathLower field patterns acc
         and items i path pathLower field patterns acc
         and entries path pathLower field patterns acc
       arbitrary: c and c and c
       rule: collectCandidates_collectItems_collectEntries.induct)
  case (2 n path pathLower field patterns acc)
  then show ?case
    by (auto simp add: found_def split: if_splits intro: leafAt.leaf)
next
  case (3 items path pathLower field patterns acc)
  from 3(2) have "c \<in> set (collectItems items 0 path pathLower field patterns acc)" by simp
  from 3(1) [OF this] show ?case
    by (auto simp add: found_def intro: leafAt.item)
next
  case (4 entries path pathLower field patterns acc)
  from 4(2) have "c \<in> set (collectEntries entries path pathLower field patterns acc)" by simp
  from 4(1) [OF this] show ?case
    by (auto simp add: found_def intro: leafAt.entry)
next
  case (8 item items i path pathLower field patterns acc)
  from 8(3) have "c \<in> set (collectItems items (Suc i) path pathLower field patterns
       (collectCandidates item (path @ ''/'' @ showNat i) pathLower field patterns acc))" by simp
  from 8(2) [OF this] consider
      (old) "c \<in> set (collectCandidates item (path @ ''/'' @ showNat i) pathLower field patterns acc)"
    | (new) m where "m < length items" "found patterns (items ! m) (path @ ''/'' @ showNat (Suc i + m)) pathLower c"
    by blast
  then show ?case
  proof cases
    case old
    from 8(1) [OF this] show ?thesis
    proof
      assume "c \<in> set acc" then show ?thesis ..
    next
      assume "found patterns item (path @ ''/'' @ showNat i) pathLower c"
      then have "0 < length (item # items) \<and> found patterns ((item # items) ! 0) (path @ ''/'' @ showNat (i + 0)) pathLower c"
        by simp
      then show ?thesis by blast
    qed
  next
    case new
    then have "Suc m < length (item # items) \<and> found patterns ((item # items) ! Suc m) (path @ ''/'' @ showNat (i + Suc m)) pathLower c"
      by simp
    then show ?thesis by blast
  qed
next
  case (10 k v entries path pathLower field patterns acc)
  from 10(3) have "c \<in> set (collectEntries entries path pathLower field patterns
       (collectCandidates v (if path \<noteq> [] then path @ ''/'' @ k else k)
          (stripSpaces (pathLower @ ''/'' @ toLowerCase k)) field patterns acc))" by simp
  from 10(2) [OF this] show ?case
  proof
    assume "c \<in> set (collectCandidates v (if path \<noteq> [] then path @ ''/'' @ k else k)
          (stripSpaces (pathLower @ ''/'' @ toLowerCase k)) field patterns acc)"
    from 10(1) [OF this] show ?thesis by auto
  next
    assume "\<exists>(k, v)\<in>set entries. found patterns v (if path \<noteq> [] then path @ ''/'' @ k else k)
                    (stripSpaces (pathLower @ ''/'' @ toLowerCase k)) c"
    then show ?thesis by auto
  qed
qed simp_all

section \<open>Reading the counters, and the runs of the weekly program\<close>

lemma toNumber_Some: "toNumber v = Some n \<Longrightarrow> isFinite n"
  by (cases v rule: toNumber.cases) (auto split: if_splits)

lemma member_coalesce_preferred:
  "toNumber (member (coalesce (member api ''unpulsed'') (coalesce (member api ''totals'') (JObject []))) name)
     = counterOf (preferredSection api) name"
proof (cases "nullish (member api ''unpulsed'')")
  case True
  then have u: "coalesce (member api ''unpulsed'') b = b" for b
    by (cases "member api ''unpulsed''" rule: nullish.cases) simp_all
  show ?thesis
    by (cases "member api ''totals''" rule: nullish.cases)
       (simp_all add: u True preferredSection_def counterOf_def)
next
  case False
  then obtain j where j: "member api ''unpulsed'' = Some j" "j \<noteq> JNull"
    by (cases "member api ''unpulsed''" rule: nullish.cases) simp_all
  then have "coalesce (member api ''unpulsed'') b = j" for b
    by (cases j) simp_all
  then show ?thesis using False j by (simp add: preferredSection_def counterOf_def)
qed

lemma getCounters_Inr_iff:
  "getCounters api = Inr cs \<longleftrightarrow>
     counterOf (preferredSection api) ''keys'' = Some (keys cs) \<and>
     counterOf (preferredSection api) ''clicks'' = Some (clicks cs) \<and>
     counterOf (preferredSection api) ''scrolls'' = Some (scrolls cs) \<and>
     counterOf (preferredSection api) ''uptimeSeconds'' = Some (uptimeSeconds cs)"
proof (cases "api = JNull")
  case True
  then show ?thesis by (simp add: getCounters_def preferredSection_def counterOf_def)
next
  case False
  then show ?thesis
    by (auto simp add: getCounters_def Let_def member_coalesce_preferred split: option.splits)
qed

lemma getCounters_fails:
  "\<not> hasAllCounters (preferredSection api) \<Longrightarrow> \<exists>e. getCounters api = Inl e"
  by (cases "getCounters api") (auto simp add: getCounters_Inr_iff hasAllCounters_def)

lemma getCounters_finite:
  assumes "getCounters api = Inr cs"
  shows "isFinite (keys cs) \<and> isFinite (clicks cs) \<and> isFinite (scrolls cs) \<and> isFinite (uptimeSeconds cs)"
proof -
  have f: "counterOf s n = Some x \<Longrightarrow> isFinite x" for s n x
    by (auto simp: counterOf_def split: option.splits dest: toNumber_Some)
  from assms show ?thesis unfolding getCounters_Inr_iff by (blast dest: f)
qed

lemma paths_distinct: "snapshotsPath \<noteq> weeklyPath" "weeklyPath \<noteq> snapshotsPath"
  by (simp_all add: snapshotsPath_def weeklyPath_def)

lemma main_weekly_failure:
  "main_weekly P fs = (Some e, fs') \<Longrightarrow> fs' = fs"
  by (auto simp add: main_weekly_def Let_def split: option.splits sum.splits)

lemma main_weekly_success:
  assumes "main_weekly P fs = (None, fs')"
  shows "\<exists>raw api cs. fs apiPath = Some raw \<and> parseJson P raw = Some api \<and> getCounters api = Inr cs \<and>
           fs' = (fs(snapshotsPath \<mapsto>
                      stringifySnapshots P
                        (readSnapshots P fs @
                           [\<lparr>capturedAt = now P, s_source = ''whatpulse-client-api'', counters = cs\<rparr>]) @ newline))
                  (weeklyPath \<mapsto>
                      stringifyWeekly P
                        (weeklyOutput P (now P)
                           (readSnapshots P fs @
                              [\<lparr>capturedAt = now P, s_source = ''whatpulse-client-api'', counters = cs\<rparr>])) @ newline)"
  using assms
  by (auto simp add: main_weekly_def Let_def split: option.splits sum.splits)

lemma main_weekly_runs:
  assumes "fs apiPath = Some raw" "parseJson P raw = Some api" "getCounters api = Inr cs"
  shows "main_weekly P fs =
     (None, (fs(snapshotsPath \<mapsto>
                      stringifySnapshots P
                        (readSnapshots P fs @
                           [\<lparr>capturedAt = now P, s_source = ''whatpulse-client-api'', counters = cs\<rparr>]) @ newline))
                  (weeklyPath \<mapsto>
                      stringifyWeekly P
                        (weeklyOutput P (now P)
                           (readSnapshots P fs @
                              [\<lparr>capturedAt = now P, s_source = ''whatpulse-client-api'', counters = cs\<rparr>])) @ newline))"
  using assms by (simp add: main_weekly_def Let_def)

lemma main_weekly_stops:
  assumes "fs apiPath = Some raw" "parseJson P raw = Some api" "getCounters api = Inl e"
  shows "main_weekly P fs = (Some e, fs)"
  using assms by (simp add: main_weekly_def)

lemma weeklyOutput_short:
  "length ledger < 2 \<Longrightarrow>
     w_range (weeklyOutput P t ledger) = None \<and> w_counters (weeklyOutput P t ledger) = None \<and>
     w_note (weeklyOutput P t ledger) \<noteq> None"
  by (simp add: weeklyOutput_def)

lemma last_two:
  assumes "2 \<le> length xs"
  shows "xs ! (length xs - 2) = last (butlast xs) \<and> xs ! (length xs - 1) = last xs"
proof -
  have ne: "xs \<noteq> []" "butlast xs \<noteq> []" using assms by (auto simp: length_0_conv [symmetric] simp del: length_0_conv)
  have "last (butlast xs) = butlast xs ! (length (butlast xs) - 1)" using ne by (simp add: last_conv_nth)
  also have "\<dots> = xs ! (length xs - 2)" using assms by (simp add: nth_butlast numeral_2_eq_2)
  finally show ?thesis using ne by (simp add: last_conv_nth)
qed

lemma weeklyOutput_long:
  "2 \<le> length ledger \<Longrightarrow>
     w_range (weeklyOutput P t ledger) =
       Some (capturedAt (last (butlast ledger)) @ ''/'' @ capturedAt (last ledger)) \<and>
     w_counters (weeklyOutput P t ledger) =
       Some (delta P (counters (last (butlast ledger))) (counters (last ledger))) \<and>
     w_note (weeklyOutput P t ledger) = None"
  using last_two [of ledger] by (simp add: weeklyOutput_def Let_def)

section \<open>The sample documents\<close>

lemma pendingTotals_candidates:
  "candidatesFor pendingTotals Keys =
     [\<lparr>c_value = Finite 5, c_path = ''Pending Totals/0/Keys'',
       c_pathLower = ''/pendingtotals/keys'', c_section = sectionOf ''/pendingtotals/keys''\<rparr>]"
  by (simp add: candidatesFor_def pendingTotals_def leafKey_def lastSegment_def toLowerCase_def
        stripSpaces_def lowerChar_def isUpper_def isSpace_def keyMatches_def showNat.simps digit_def)

lemma scenarioA_keys_candidates:
  "candidatesFor scenarioA_data Keys =
     [\<lparr>c_value = Finite 500, c_path = ''stats/totals/keys'',
       c_pathLower = ''/stats/totals/keys'', c_section = sectionOf ''/stats/totals/keys''\<rparr>]"
  by (simp add: candidatesFor_def scenarioA_data_def leafKey_def lastSegment_def toLowerCase_def
        stripSpaces_def lowerChar_def isUpper_def isSpace_def keyMatches_def)

lemma pendingTotals_leaf:
  "leafAt pendingTotals [] [] ''Pending Totals/0/Keys'' ''/pendingtotals/keys'' (Finite 5)"
proof -
  have 1: "leafAt (JNumber (Finite 5)) ''Pending Totals/0/Keys'' ''/pendingtotals/keys''
             ''Pending Totals/0/Keys'' ''/pendingtotals/keys'' (Finite 5)"
    by (rule leafAt.leaf)
  have 2: "leafAt (JObject [(''Keys'', JNumber (Finite 5))]) ''Pending Totals/0'' ''/pendingtotals''
             ''Pending Totals/0/Keys'' ''/pendingtotals/keys'' (Finite 5)"
    using leafAt.entry [of "''Keys''" "JNumber (Finite 5)" "[(''Keys'', JNumber (Finite 5))]"
            "''Pending Totals/0''" "''/pendingtotals''" "''Pending Totals/0/Keys''"
            "''/pendingtotals/keys''" "Finite 5"] 1
    by (simp add: toLowerCase_def stripSpaces_def lowerChar_def isUpper_def isSpace_def)
  have 3: "leafAt (JArray [JObject [(''Keys'', JNumber (Finite 5))]]) ''Pending Totals'' ''/pendingtotals''
             ''Pending Totals/0/Keys'' ''/pendingtotals/keys'' (Finite 5)"
    using leafAt.item [of 0 "[JObject [(''Keys'', JNumber (Finite 5))]]" "''Pending Totals''"
            "''/pendingtotals''" "''Pending Totals/0/Keys''" "''/pendingtotals/keys''" "Finite 5"] 2
    by (simp add: showNat.simps digit_def)
  show ?thesis
    unfolding pendingTotals_def
    using leafAt.entry [of "''Pending Totals''" "JArray [JObject [(''Keys'', JNumber (Finite 5))]]"
            "[(''Pending Totals'', JArray [JObject [(''Keys'', JNumber (Finite 5))]])]"
            "[]" "[]" "''Pending Totals/0/Keys''" "''/pendingtotals/keys''" "Finite 5"] 3
    by (simp add: toLowerCase_def stripSpaces_def lowerChar_def isUpper_def isSpace_def)
qed

lemma totalsAndBareKeys_candidates:
  "candidatesFor totalsAndBareKeys Keys =
     [\<lparr>c_value = Finite 500, c_path = ''totals/keys'', c_pathLower = ''/totals/keys'',
       c_section = CTotals\<rparr>,
      \<lparr>c_value = Finite 7, c_path = ''keys'', c_pathLower = ''/keys'', c_section = CNone\<rparr>]"
  by (simp add: candidatesFor_def totalsAndBareKeys_def key_defs)

section \<open>Rounded differences, floored at zero\<close>

lemma max0_nonNegative:
  assumes "keepsSign rnd"
  shows "nonNegative (max0 (rnd r))"
proof (cases "rnd r")
  case (Finite q)
  then show ?thesis by simp
next
  case PosInfinity
  then show ?thesis by simp
next
  case NegInfinity
  then show ?thesis by simp
next
  case NaN
  have "nonPositive (rnd r) \<or> nonNegative (rnd r)"
    using assms unfolding keepsSign_def by (metis linear)
  then show ?thesis using NaN by simp
qed

lemma max0_of_drop:
  assumes "keepsSign rnd" and "r \<le> 0"
  shows "max0 (rnd r) = Finite 0"
proof -
  have "nonPositive (rnd r)" using assms unfolding keepsSign_def by blast
  then show ?thesis by (cases "rnd r") simp_all
qed

lemma keepsSign_exactInRange: "keepsSign exactInRange"
proof -
  define M :: real where "M = 2 ^ 1024"
  have pos: "0 < M" by (simp add: M_def)
  have e: "exactInRange r =
      (if M \<le> r then PosInfinity else if r \<le> - M then NegInfinity else Finite r)" for r
    by (simp only: exactInRange_def M_def)
  show ?thesis
    unfolding keepsSign_def e using pos by auto
qed

section \<open>Theorems\<close>

text \<open>
  C1. For the raw capture of scenario A the extractor produces the totals
  \<open>{keys: 500, clicks: 300, scrolls: 10, uptimeSeconds: 7200}\<close>. The claim has
  \<open>unpulsed\<close> null there; the program does not: no candidate is tagged
  \<open>unpulsed\<close>, the fallback of \<open>pickBest\<close> ranks every candidate, not only those
  tagged \<open>none\<close>, and so \<open>unpulsed\<close> repeats the four totals.
\<close>

theorem scenarioA_unpulsed_repeats_totals:
  "normalize timestamp scenarioA = Inr (buildOutput timestamp scenarioA_data) \<and>
   totals (buildOutput timestamp scenarioA_data) =
     \<lparr>keys = Some (Finite 500), clicks = Some (Finite 300),
      scrolls = Some (Finite 10), uptimeSeconds = Some (Finite 7200)\<rparr> \<and>
   unpulsed (buildOutput timestamp scenarioA_data) =
     Some \<lparr>keys = Some (Finite 500), clicks = Some (Finite 300),
           scrolls = Some (Finite 10), uptimeSeconds = Some (Finite 7200)\<rparr>"
  by (simp add: normalize_def buildOutput_def extractSection_def numericFields_def
        scenarioA_candidates pickBest_single scenarioA_unwrapped Let_def)

theorem scenarioA_unpulsed_repeats_totals_witness:
  "unpulsed (buildOutput ''t1'' scenarioA_data) =
     Some \<lparr>keys = Some (Finite 500), clicks = Some (Finite 300),
           scrolls = Some (Finite 10), uptimeSeconds = Some (Finite 7200)\<rparr>"
  using scenarioA_unpulsed_repeats_totals [of "''t1''"] by simp

text \<open>
  C2. The claim: when no candidate carries the requested tag, \<open>pickBest\<close> draws its
  result from the candidates tagged \<open>none\<close>. The program does not. For the keys of the
  document \<open>{"totals": {"keys": 500}, "keys": 7}\<close> there are two candidates, the first
  tagged \<open>totals\<close> and the second tagged \<open>none\<close>. Asked for \<open>unpulsed\<close>, which
  neither carries, the fallback as claimed returns the second; \<open>pickBest\<close> ranks both
  and returns the first, the one tagged \<open>totals\<close>.
\<close>

theorem pickBest_fallback_ranks_every_candidate:
  "candidatesFor totalsAndBareKeys Keys =
     [\<lparr>c_value = Finite 500, c_path = ''totals/keys'', c_pathLower = ''/totals/keys'',
       c_section = CTotals\<rparr>,
      \<lparr>c_value = Finite 7, c_path = ''keys'', c_pathLower = ''/keys'', c_section = CNone\<rparr>] \<and>
   fallbackAsClaimed (candidatesFor totalsAndBareKeys Keys) Unpulsed =
     Some \<lparr>c_value = Finite 7, c_path = ''keys'', c_pathLower = ''/keys'', c_section = CNone\<rparr> \<and>
   pickBest (candidatesFor totalsAndBareKeys Keys) Unpulsed =
     Some \<lparr>c_value = Finite 500, c_path = ''totals/keys'', c_pathLower = ''/totals/keys'',
            c_section = CTotals\<rparr>"
  by (simp add: totalsAndBareKeys_candidates fallbackAsClaimed_def pickBest_def
        sortByScoreDesc_def first_def pathScore_def TOTALS_PATH_HINTS_def
        UNPULSED_PATH_HINTS_def Let_def)

text \<open>
  C3. \<open>getCounters\<close> reads \<open>unpulsed\<close>, and \<open>totals\<close> when \<open>unpulsed\<close> is null: it
  returns counters exactly when that section yields four finite numbers, and then these.
  When neither section yields four counters the run fails with every file as it was; so
  does every failing run; and a run that succeeds has appended a snapshot with four
  finite counters.
\<close>

theorem extraction_before_ledger:
  "(getCounters api = Inr cs \<longleftrightarrow>
      counterOf (preferredSection api) ''keys'' = Some (keys cs) \<and>
      counterOf (preferredSection api) ''clicks'' = Some (clicks cs) \<and>
      counterOf (preferredSection api) ''scrolls'' = Some (scrolls cs) \<and>
      counterOf (preferredSection api) ''uptimeSeconds'' = Some (uptimeSeconds cs)) \<and>
   (fs apiPath = Some raw \<and> parseJson P raw = Some api \<and>
    \<not> hasAllCounters (member api ''unpulsed'') \<and> \<not> hasAllCounters (member api ''totals'') \<longrightarrow>
      (\<exists>e. main_weekly P fs = (Some e, fs))) \<and>
   (main_weekly P fs = (Some e, fs') \<longrightarrow> fs' = fs) \<and>
   (main_weekly P fs = (None, fs') \<longrightarrow>
      (\<exists>s. fs' snapshotsPath = Some (stringifySnapshots P (readSnapshots P fs @ [s]) @ newline) \<and>
           isFinite (keys (counters s)) \<and> isFinite (clicks (counters s)) \<and>
           isFinite (scrolls (counters s)) \<and> isFinite (uptimeSeconds (counters s))))"
proof (intro conjI impI)
  show "getCounters api = Inr cs \<longleftrightarrow>
      counterOf (preferredSection api) ''keys'' = Some (keys cs) \<and>
      counterOf (preferredSection api) ''clicks'' = Some (clicks cs) \<and>
      counterOf (preferredSection api) ''scrolls'' = Some (scrolls cs) \<and>
      counterOf (preferredSection api) ''uptimeSeconds'' = Some (uptimeSeconds cs)"
    by (rule getCounters_Inr_iff)
next
  assume a: "fs apiPath = Some raw \<and> parseJson P raw = Some api \<and>
    \<not> hasAllCounters (member api ''unpulsed'') \<and> \<not> hasAllCounters (member api ''totals'')"
  then have "\<not> hasAllCounters (preferredSection api)"
    by (simp add: preferredSection_def)
  then obtain e where "getCounters api = Inl e"
    using getCounters_fails by blast
  with a have "main_weekly P fs = (Some e, fs)"
    by (simp add: main_weekly_stops)
  then show "\<exists>e. main_weekly P fs = (Some e, fs)" ..
next
  assume "main_weekly P fs = (Some e, fs')"
  then show "fs' = fs" by (rule main_weekly_failure)
next
  assume "main_weekly P fs = (None, fs')"
  from main_weekly_success [OF this] obtain raw' api' cs' where
    c: "getCounters api' = Inr cs'" and
    f: "fs' = (fs(snapshotsPath \<mapsto>
                      stringifySnapshots P
                        (readSnapshots P fs @
                           [\<lparr>capturedAt = now P, s_source = ''whatpulse-client-api'', counters = cs'\<rparr>]) @ newline))
                  (weeklyPath \<mapsto>
                      stringifyWeekly P
                        (weeklyOutput P (now P)
                           (readSnapshots P fs @
                              [\<lparr>capturedAt = now P, s_source = ''whatpulse-client-api'', counters = cs'\<rparr>])) @ newline)"
    by blast
  let ?s = "\<lparr>capturedAt = now P, s_source = ''whatpulse-client-api'', counters = cs'\<rparr>"
  have "fs' snapshotsPath = Some (stringifySnapshots P (readSnapshots P fs @ [?s]) @ newline)"
    unfolding f by (simp add: paths_distinct)
  moreover have "isFinite (keys (counters ?s)) \<and> isFinite (clicks (counters ?s)) \<and>
           isFinite (scrolls (counters ?s)) \<and> isFinite (uptimeSeconds (counters ?s))"
    using getCounters_finite [OF c] by simp
  ultimately show "\<exists>s. fs' snapshotsPath = Some (stringifySnapshots P (readSnapshots P fs @ [s]) @ newline) \<and>
           isFinite (keys (counters s)) \<and> isFinite (clicks (counters s)) \<and>
           isFinite (scrolls (counters s)) \<and> isFinite (uptimeSeconds (counters s))"
    by blast
qed

text \<open>
  The run of the unresolvable-fields scenario fails and the ledger file keeps its text;
  a report with \<open>unpulsed\<close> null and four totals yields those totals.
\<close>

theorem extraction_before_ledger_witness:
  "sampleFiles apiPath = Some ''report text'' \<and>
   parseJson (samplePlatform unresolvableReport None) ''report text'' = Some unresolvableReport \<and>
   \<not> hasAllCounters (member unresolvableReport ''unpulsed'') \<and>
   \<not> hasAllCounters (member unresolvableReport ''totals'') \<and>
   fst (main_weekly (samplePlatform unresolvableReport None) sampleFiles) \<noteq> None \<and>
   snd (main_weekly (samplePlatform unresolvableReport None) sampleFiles) = sampleFiles \<and>
   sampleFiles snapshotsPath = Some ''ledger text'' \<and>
   getCounters totalsOnlyReport =
     Inr (resolved \<lparr>keys = 150, clicks = 250, scrolls = 350, uptimeSeconds = 450\<rparr>)"
proof -
  have h: "sampleFiles apiPath = Some ''report text'' \<and>
     parseJson (samplePlatform unresolvableReport None) ''report text'' = Some unresolvableReport \<and>
     \<not> hasAllCounters (member unresolvableReport ''unpulsed'') \<and>
     \<not> hasAllCounters (member unresolvableReport ''totals'')"
    by (simp add: sampleFiles_def samplePlatform_def unresolvableReport_def hasAllCounters_def
          counterOf_def apiPath_def snapshotsPath_def)
  have l: "sampleFiles snapshotsPath = Some ''ledger text''"
    by (simp add: sampleFiles_def)
  have t: "counterOf (preferredSection totalsOnlyReport) ''keys'' = Some (Finite 150) \<and>
     counterOf (preferredSection totalsOnlyReport) ''clicks'' = Some (Finite 250) \<and>
     counterOf (preferredSection totalsOnlyReport) ''scrolls'' = Some (Finite 350) \<and>
     counterOf (preferredSection totalsOnlyReport) ''uptimeSeconds'' = Some (Finite 450)"
    by (simp add: totalsOnlyReport_def preferredSection_def counterOf_def)
  from extraction_before_ledger
         [of unresolvableReport _ sampleFiles "''report text''" "samplePlatform unresolvableReport None"]
  have 1: "\<exists>e. main_weekly (samplePlatform unresolvableReport None) sampleFiles = (Some e, sampleFiles)"
    using h by blast
  from extraction_before_ledger
         [of totalsOnlyReport "resolved \<lparr>keys = 150, clicks = 250, scrolls = 350, uptimeSeconds = 450\<rparr>"]
  have 2: "getCounters totalsOnlyReport =
     Inr (resolved \<lparr>keys = 150, clicks = 250, scrolls = 350, uptimeSeconds = 450\<rparr>)"
    using t by (simp add: resolved_def)
  from 1 2 h l show ?thesis by auto
qed

text \<open>
  C4. For all pairs of counter records with finite fields, each field of \<open>delta\<close> is
  \<open>Math.max(0, current - prev)\<close> of that field alone, the difference being the one the
  platform computes: the exact difference, rounded. Whenever that rounding keeps the
  sign, as the rounding of doubles does, every field of \<open>delta\<close> is \<open>>= 0\<close>, and a
  counter that did not grow yields 0, never a negative value.
\<close>

theorem delta_clamped_per_field:
  assumes "keepsSign (roundNumber P)"
  shows "delta P (resolved prev) (resolved current) =
           \<lparr>keys = max0 (roundNumber P (keys current - keys prev)),
            clicks = max0 (roundNumber P (clicks current - clicks prev)),
            scrolls = max0 (roundNumber P (scrolls current - scrolls prev)),
            uptimeSeconds = max0 (roundNumber P (uptimeSeconds current - uptimeSeconds prev))\<rparr> \<and>
         nonNegative (keys (delta P (resolved prev) (resolved current))) \<and>
         nonNegative (clicks (delta P (resolved prev) (resolved current))) \<and>
         nonNegative (scrolls (delta P (resolved prev) (resolved current))) \<and>
         nonNegative (uptimeSeconds (delta P (resolved prev) (resolved current))) \<and>
         (keys current \<le> keys prev \<longrightarrow>
            keys (delta P (resolved prev) (resolved current)) = Finite 0) \<and>
         (clicks current \<le> clicks prev \<longrightarrow>
            clicks (delta P (resolved prev) (resolved current)) = Finite 0) \<and>
         (scrolls current \<le> scrolls prev \<longrightarrow>
            scrolls (delta P (resolved prev) (resolved current)) = Finite 0) \<and>
         (uptimeSeconds current \<le> uptimeSeconds prev \<longrightarrow>
            uptimeSeconds (delta P (resolved prev) (resolved current)) = Finite 0)"
  using max0_nonNegative [OF assms] max0_of_drop [OF assms]
  by (simp add: delta_def resolved_def)

text \<open>
  With the rounding that is exact in the range of doubles: keys drop from 500 to 10 and
  yield 0, clicks grow by 50, scrolls stay and yield 0, and an uptime that goes from
  \<open>-(2^1023)\<close> to \<open>2^1023\<close> yields positive infinity.
\<close>

theorem delta_clamped_per_field_witness:
  "keepsSign (roundNumber (samplePlatform totalsOnlyReport None)) \<and>
   delta (samplePlatform totalsOnlyReport None)
     (resolved \<lparr>keys = 500, clicks = 300, scrolls = 10, uptimeSeconds = - (2 ^ 1023)\<rparr>)
     (resolved \<lparr>keys = 10, clicks = 350, scrolls = 10, uptimeSeconds = 2 ^ 1023\<rparr>) =
     \<lparr>keys = Finite 0, clicks = Finite 50, scrolls = Finite 0, uptimeSeconds = PosInfinity\<rparr>"
proof -
  have k: "keepsSign (roundNumber (samplePlatform totalsOnlyReport None))"
    by (simp add: samplePlatform_def keepsSign_exactInRange)
  have r: "roundNumber (samplePlatform totalsOnlyReport None) (10 - 500) = Finite (- 490) \<and>
           roundNumber (samplePlatform totalsOnlyReport None) (350 - 300) = Finite 50 \<and>
           roundNumber (samplePlatform totalsOnlyReport None) (10 - 10) = Finite 0 \<and>
           roundNumber (samplePlatform totalsOnlyReport None) (2 ^ 1023 - - (2 ^ 1023)) = PosInfinity"
    by (simp add: samplePlatform_def exactInRange_def)
  from delta_clamped_per_field [OF k,
         of "\<lparr>keys = 500, clicks = 300, scrolls = 10, uptimeSeconds = - (2 ^ 1023)\<rparr>"
            "\<lparr>keys = 10, clicks = 350, scrolls = 10, uptimeSeconds = 2 ^ 1023\<rparr>"]
  show ?thesis using k r by simp
qed

text \<open>
  C5. The output object depends on the length of the ledger after the append. With fewer
  than two snapshots its range and counters are null and its note is not; with two or
  more its range is the time of the last but one snapshot, a slash and the time of the
  last one, its counters are their delta and its note is null. So exactly one of the two
  groups is populated. A run that completes writes this object for the ledger it has
  just written.
\<close>

theorem weekly_output_two_states:
  "(length ledger < 2 \<longrightarrow>
      w_range (weeklyOutput P t ledger) = None \<and> w_counters (weeklyOutput P t ledger) = None \<and>
      w_note (weeklyOutput P t ledger) \<noteq> None) \<and>
   (2 \<le> length ledger \<longrightarrow>
      w_range (weeklyOutput P t ledger) =
        Some (capturedAt (last (butlast ledger)) @ ''/'' @ capturedAt (last ledger)) \<and>
      w_counters (weeklyOutput P t ledger) =
        Some (delta P (counters (last (butlast ledger))) (counters (last ledger))) \<and>
      w_note (weeklyOutput P t ledger) = None) \<and>
   ((w_range (weeklyOutput P t ledger) \<noteq> None \<and> w_counters (weeklyOutput P t ledger) \<noteq> None \<and>
       w_note (weeklyOutput P t ledger) = None) \<or>
    (w_range (weeklyOutput P t ledger) = None \<and> w_counters (weeklyOutput P t ledger) = None \<and>
       w_note (weeklyOutput P t ledger) \<noteq> None)) \<and>
   (main_weekly P fs = (None, fs') \<longrightarrow>
      (\<exists>s. fs' snapshotsPath = Some (stringifySnapshots P (readSnapshots P fs @ [s]) @ newline) \<and>
           fs' weeklyPath =
             Some (stringifyWeekly P (weeklyOutput P (now P) (readSnapshots P fs @ [s])) @ newline)))"
proof -
  have short: "length ledger < 2 \<longrightarrow>
      w_range (weeklyOutput P t ledger) = None \<and> w_counters (weeklyOutput P t ledger) = None \<and>
      w_note (weeklyOutput P t ledger) \<noteq> None"
    using weeklyOutput_short [of ledger P t] by (rule impI)
  have long: "2 \<le> length ledger \<longrightarrow>
      w_range (weeklyOutput P t ledger) =
        Some (capturedAt (last (butlast ledger)) @ ''/'' @ capturedAt (last ledger)) \<and>
      w_counters (weeklyOutput P t ledger) =
        Some (delta P (counters (last (butlast ledger))) (counters (last ledger))) \<and>
      w_note (weeklyOutput P t ledger) = None"
    using weeklyOutput_long [of ledger P t] by (rule impI)
  have one: "(w_range (weeklyOutput P t ledger) \<noteq> None \<and> w_counters (weeklyOutput P t ledger) \<noteq> None \<and>
       w_note (weeklyOutput P t ledger) = None) \<or>
    (w_range (weeklyOutput P t ledger) = None \<and> w_counters (weeklyOutput P t ledger) = None \<and>
       w_note (weeklyOutput P t ledger) \<noteq> None)"
  proof (cases "length ledger < 2")
    case True
    from weeklyOutput_short [OF this] show ?thesis by blast
  next
    case False
    then have "2 \<le> length ledger" by simp
    from weeklyOutput_long [OF this, of P t] show ?thesis by simp
  qed
  have run: "main_weekly P fs = (None, fs') \<longrightarrow>
      (\<exists>s. fs' snapshotsPath = Some (stringifySnapshots P (readSnapshots P fs @ [s]) @ newline) \<and>
           fs' weeklyPath =
             Some (stringifyWeekly P (weeklyOutput P (now P) (readSnapshots P fs @ [s])) @ newline))"
  proof (rule impI)
    assume "main_weekly P fs = (None, fs')"
    from main_weekly_success [OF this] obtain cs where
      f: "fs' = (fs(snapshotsPath \<mapsto>
                      stringifySnapshots P
                        (readSnapshots P fs @
                           [\<lparr>capturedAt = now P, s_source = ''whatpulse-client-api'', counters = cs\<rparr>]) @ newline))
                  (weeklyPath \<mapsto>
                      stringifyWeekly P
                        (weeklyOutput P (now P)
                           (readSnapshots P fs @
                              [\<lparr>capturedAt = now P, s_source = ''whatpulse-client-api'', counters = cs\<rparr>])) @ newline)"
      by blast
    let ?s = "\<lparr>capturedAt = now P, s_source = ''whatpulse-client-api'', counters = cs\<rparr>"
    have "fs' snapshotsPath = Some (stringifySnapshots P (readSnapshots P fs @ [?s]) @ newline) \<and>
          fs' weeklyPath =
            Some (stringifyWeekly P (weeklyOutput P (now P) (readSnapshots P fs @ [?s])) @ newline)"
      unfolding f by (simp add: paths_distinct)
    then show "\<exists>s. fs' snapshotsPath = Some (stringifySnapshots P (readSnapshots P fs @ [s]) @ newline) \<and>
           fs' weeklyPath =
             Some (stringifyWeekly P (weeklyOutput P (now P) (readSnapshots P fs @ [s])) @ newline)"
      by blast
  qed
  show ?thesis
    by (rule conjI [OF short conjI [OF long conjI [OF one run]]])
qed

text \<open>
  The two states on scenario B: a ledger of one snapshot gives the note, the ledger of
  both gives the range \<open>t1/t2\<close> and a delta of 50 in every field.
\<close>

theorem weekly_output_two_states_witness:
  "length [snapshotT2] < 2 \<and>
   w_range (weeklyOutput (samplePlatform totalsOnlyReport None) ''t2'' [snapshotT2]) = None \<and>
   w_counters (weeklyOutput (samplePlatform totalsOnlyReport None) ''t2'' [snapshotT2]) = None \<and>
   w_note (weeklyOutput (samplePlatform totalsOnlyReport None) ''t2'' [snapshotT2]) \<noteq> None \<and>
   2 \<le> length [snapshotT1, snapshotT2] \<and>
   w_range (weeklyOutput (samplePlatform totalsOnlyReport None) ''t2'' [snapshotT1, snapshotT2]) = Some ''t1/t2'' \<and>
   w_counters (weeklyOutput (samplePlatform totalsOnlyReport None) ''t2'' [snapshotT1, snapshotT2]) =
     Some (resolved \<lparr>keys = 50, clicks = 50, scrolls = 50, uptimeSeconds = 50\<rparr>) \<and>
   w_note (weeklyOutput (samplePlatform totalsOnlyReport None) ''t2'' [snapshotT1, snapshotT2]) = None"
  using weekly_output_two_states
          [where ledger = "[snapshotT2]" and t = "''t2''" and P = "samplePlatform totalsOnlyReport None"]
        weekly_output_two_states
          [where ledger = "[snapshotT1, snapshotT2]" and t = "''t2''"
             and P = "samplePlatform totalsOnlyReport None"]
  by (simp add: snapshotT1_def snapshotT2_def delta_def resolved_def samplePlatform_def
        exactInRange_def)

text \<open>
  C6. The ledger is read as empty when its file is missing, is not valid JSON, or holds a
  value that is not an array, and as the array otherwise. Whatever the file held, a run
  whose counters resolve completes, and the array it writes to the ledger file is the
  ledger read, followed by the new snapshot: its last element is that snapshot and it is
  one longer.
\<close>

theorem ledger_append:
  "(fs snapshotsPath = None \<longrightarrow> readSnapshots P fs = []) \<and>
   (fs snapshotsPath = Some raw \<and> parseSnapshots P raw = None \<longrightarrow> readSnapshots P fs = []) \<and>
   (fs snapshotsPath = Some raw \<and> parseSnapshots P raw = Some NotAnArray \<longrightarrow>
      readSnapshots P fs = []) \<and>
   (fs snapshotsPath = Some raw \<and> parseSnapshots P raw = Some (Snapshots xs) \<longrightarrow>
      readSnapshots P fs = xs) \<and>
   (fs apiPath = Some apiRaw \<and> parseJson P apiRaw = Some api \<and> getCounters api = Inr cs \<longrightarrow>
      (\<exists>fs' ledger.
          main_weekly P fs = (None, fs') \<and>
          fs' snapshotsPath = Some (stringifySnapshots P ledger @ newline) \<and>
          butlast ledger = readSnapshots P fs \<and>
          last ledger = \<lparr>capturedAt = now P, s_source = ''whatpulse-client-api'', counters = cs\<rparr> \<and>
          length ledger = length (readSnapshots P fs) + 1))"
proof (intro conjI impI)
  assume a: "fs apiPath = Some apiRaw \<and> parseJson P apiRaw = Some api \<and> getCounters api = Inr cs"
  let ?s = "\<lparr>capturedAt = now P, s_source = ''whatpulse-client-api'', counters = cs\<rparr>"
  let ?ledger = "readSnapshots P fs @ [?s]"
  let ?fs' = "(fs(snapshotsPath \<mapsto> stringifySnapshots P ?ledger @ newline))
                  (weeklyPath \<mapsto> stringifyWeekly P (weeklyOutput P (now P) ?ledger) @ newline)"
  have "main_weekly P fs = (None, ?fs')"
    using a by (simp add: main_weekly_runs)
  moreover have "?fs' snapshotsPath = Some (stringifySnapshots P ?ledger @ newline)"
    by (simp add: paths_distinct)
  moreover have "butlast ?ledger = readSnapshots P fs \<and> last ?ledger = ?s \<and>
      length ?ledger = length (readSnapshots P fs) + 1"
    by simp
  ultimately show "\<exists>fs' ledger.
          main_weekly P fs = (None, fs') \<and>
          fs' snapshotsPath = Some (stringifySnapshots P ledger @ newline) \<and>
          butlast ledger = readSnapshots P fs \<and>
          last ledger = \<lparr>capturedAt = now P, s_source = ''whatpulse-client-api'', counters = cs\<rparr> \<and>
          length ledger = length (readSnapshots P fs) + 1"
    by blast
qed (simp_all add: readSnapshots_def)

text \<open>
  With a ledger file that is not valid JSON the run completes and writes a ledger of one
  snapshot; with a ledger file that holds one snapshot it writes a ledger of two.
\<close>

theorem ledger_append_witness:
  "sampleFiles snapshotsPath = Some ''ledger text'' \<and>
   parseSnapshots (samplePlatform totalsOnlyReport None) ''ledger text'' = None \<and>
   readSnapshots (samplePlatform totalsOnlyReport None) sampleFiles = [] \<and>
   readSnapshots (samplePlatform totalsOnlyReport (Some NotAnArray)) sampleFiles = [] \<and>
   readSnapshots (samplePlatform totalsOnlyReport (Some (Snapshots [snapshotT1]))) sampleFiles
     = [snapshotT1] \<and>
   fst (main_weekly (samplePlatform totalsOnlyReport None) sampleFiles) = None \<and>
   snd (main_weekly (samplePlatform totalsOnlyReport None) sampleFiles) snapshotsPath
     = Some (''#'' @ newline) \<and>
   fst (main_weekly (samplePlatform totalsOnlyReport (Some (Snapshots [snapshotT1]))) sampleFiles)
     = None \<and>
   snd (main_weekly (samplePlatform totalsOnlyReport (Some (Snapshots [snapshotT1]))) sampleFiles)
       snapshotsPath
     = Some (''##'' @ newline)"
proof -
  let ?cs = "resolved \<lparr>keys = 150, clicks = 250, scrolls = 350, uptimeSeconds = 450\<rparr>"
  have g: "getCounters totalsOnlyReport = Inr ?cs"
    by (simp add: getCounters_Inr_iff totalsOnlyReport_def preferredSection_def counterOf_def
          resolved_def)
  have f: "sampleFiles snapshotsPath = Some ''ledger text'' \<and>
           sampleFiles apiPath = Some ''report text''"
    by (simp add: sampleFiles_def apiPath_def snapshotsPath_def)
  have p: "parseSnapshots (samplePlatform api ledger) raw = ledger \<and>
           parseJson (samplePlatform api ledger) raw = Some api \<and>
           stringifySnapshots (samplePlatform api ledger) xs = replicate (length xs) (CHR ''#'')"
    for api ledger raw xs
    by (simp add: samplePlatform_def)
  note a = ledger_append [of sampleFiles "samplePlatform totalsOnlyReport None" "''ledger text''"
                             "[]" "''report text''" totalsOnlyReport ?cs]
  note b = ledger_append [of sampleFiles "samplePlatform totalsOnlyReport (Some NotAnArray)"
                             "''ledger text''" "[]" "''report text''" totalsOnlyReport ?cs]
  note c = ledger_append [of sampleFiles "samplePlatform totalsOnlyReport (Some (Snapshots [snapshotT1]))"
                             "''ledger text''" "[snapshotT1]" "''report text''" totalsOnlyReport ?cs]
  have r0: "readSnapshots (samplePlatform totalsOnlyReport None) sampleFiles = []"
    using a f p by simp
  have r1: "readSnapshots (samplePlatform totalsOnlyReport (Some NotAnArray)) sampleFiles = []"
    using b f p by simp
  have r2: "readSnapshots (samplePlatform totalsOnlyReport (Some (Snapshots [snapshotT1]))) sampleFiles
     = [snapshotT1]"
    using c f p by simp
  have m0: "fst (main_weekly (samplePlatform totalsOnlyReport None) sampleFiles) = None \<and>
      snd (main_weekly (samplePlatform totalsOnlyReport None) sampleFiles) snapshotsPath
        = Some (''#'' @ newline)"
    using a f p g r0 by auto
  have m2: "fst (main_weekly (samplePlatform totalsOnlyReport (Some (Snapshots [snapshotT1]))) sampleFiles)
        = None \<and>
      snd (main_weekly (samplePlatform totalsOnlyReport (Some (Snapshots [snapshotT1]))) sampleFiles)
          snapshotsPath
        = Some (''##'' @ newline)"
    using c f p g r2 by (auto simp add: numeral_2_eq_2)
  show ?thesis
    using f p r0 r1 r2 m0 m2 by simp
qed

text \<open>
  C7. Every finite number at a leaf whose key (the last segment of its path, in lower
  case, whitespace removed) contains one of the patterns of a field class, or is
  contained in one, is a candidate for that class, with its path, its lower-cased path
  and the tag of that lower-cased path. No candidate holds a number that is not finite.
\<close>

theorem locator_substring_match:
  "(leafAt doc [] [] p pl n \<and> isFinite n \<and>
    (\<exists>pat\<in>set (FIELD_PATTERNS field).
        includesStr (stripSpaces (toLowerCase (lastSegment p))) pat \<or>
        includesStr pat (stripSpaces (toLowerCase (lastSegment p)))) \<longrightarrow>
      \<lparr>c_value = n, c_path = p, c_pathLower = pl, c_section = sectionOf pl\<rparr>
        \<in> set (candidatesFor doc field)) \<and>
   (\<forall>c\<in>set (candidatesFor doc field). isFinite (c_value c))"
proof (intro conjI impI ballI)
  assume a: "leafAt doc [] [] p pl n \<and> isFinite n \<and>
    (\<exists>pat\<in>set (FIELD_PATTERNS field).
        includesStr (stripSpaces (toLowerCase (lastSegment p))) pat \<or>
        includesStr pat (stripSpaces (toLowerCase (lastSegment p))))"
  then have "keyMatches (leafKey p) (FIELD_PATTERNS field)"
    by (simp add: keyMatches_def leafKey_def list_ex_iff)
  with a show "\<lparr>c_value = n, c_path = p, c_pathLower = pl, c_section = sectionOf pl\<rparr>
        \<in> set (candidatesFor doc field)"
    unfolding candidatesFor_def by (blast intro: leaf_is_candidate)
next
  fix c
  assume "c \<in> set (candidatesFor doc field)"
  then have "c \<in> set [] \<or> found (FIELD_PATTERNS field) doc [] [] c"
    unfolding candidatesFor_def by (rule candidate_is_leaf_gen(1))
  then show "isFinite (c_value c)" by (simp add: found_def)
qed

text \<open>
  In the document \<open>{"Pending Totals": [{"Keys": 5}]}\<close> the leaf 5 has the path
  \<open>Pending Totals/0/Keys\<close> and the key \<open>keys\<close>; it is a candidate for the class of keys.
\<close>

theorem locator_substring_match_witness:
  "leafAt pendingTotals [] [] ''Pending Totals/0/Keys'' ''/pendingtotals/keys'' (Finite 5) \<and>
   isFinite (Finite 5) \<and>
   includesStr (stripSpaces (toLowerCase (lastSegment ''Pending Totals/0/Keys''))) ''keys'' \<and>
   \<lparr>c_value = Finite 5, c_path = ''Pending Totals/0/Keys'', c_pathLower = ''/pendingtotals/keys'',
     c_section = CUnpulsed\<rparr> \<in> set (candidatesFor pendingTotals Keys)"
proof -
  have l: "leafAt pendingTotals [] [] ''Pending Totals/0/Keys'' ''/pendingtotals/keys'' (Finite 5)"
    by (rule pendingTotals_leaf)
  have k: "includesStr (stripSpaces (toLowerCase (lastSegment ''Pending Totals/0/Keys''))) ''keys''"
    by (simp add: key_defs)
  have s: "sectionOf ''/pendingtotals/keys'' = CUnpulsed"
    by (simp add: sectionOf_def)
  from locator_substring_match
         [of pendingTotals "''Pending Totals/0/Keys''" "''/pendingtotals/keys''" "Finite 5" Keys]
  show ?thesis using l k s by simp
qed

text \<open>
  C8. Every candidate is tagged from its lower-cased path (the field \<open>pathLower\<close>, which
  the traversal builds beside the path): \<open>unpulsed\<close> when it contains \<open>unpulse\<close> or
  \<open>pending\<close>, else \<open>totals\<close> when it contains \<open>total\<close>, else \<open>none\<close>.
\<close>

theorem section_tag_priority:
  assumes "c \<in> set (candidatesFor doc field)"
  shows "leafAt doc [] [] (c_path c) (c_pathLower c) (c_value c) \<and>
         c_section c =
           (if includesStr (c_pathLower c) ''unpulse'' \<or> includesStr (c_pathLower c) ''pending''
            then CUnpulsed
            else if includesStr (c_pathLower c) ''total'' then CTotals
            else CNone)"
proof -
  from assms have "c \<in> set [] \<or> found (FIELD_PATTERNS field) doc [] [] c"
    unfolding candidatesFor_def by (rule candidate_is_leaf_gen(1))
  then show ?thesis by (simp add: found_def sectionOf_def)
qed

text \<open>
  The candidate of the document \<open>{"Pending Totals": [{"Keys": 5}]}\<close>: its lower-cased
  path contains both \<open>pending\<close> and \<open>total\<close>, and its tag is \<open>unpulsed\<close>. The candidate
  of scenario A, below \<open>totals\<close>, is tagged \<open>totals\<close>.
\<close>

theorem section_tag_priority_witness:
  "candidatesFor pendingTotals Keys =
     [\<lparr>c_value = Finite 5, c_path = ''Pending Totals/0/Keys'',
       c_pathLower = ''/pendingtotals/keys'', c_section = CUnpulsed\<rparr>] \<and>
   includesStr ''/pendingtotals/keys'' ''pending'' \<and>
   includesStr ''/pendingtotals/keys'' ''total'' \<and>
   map c_section (candidatesFor scenarioA_data Keys) = [CTotals]"
proof -
  have c: "candidatesFor pendingTotals Keys =
     [\<lparr>c_value = Finite 5, c_path = ''Pending Totals/0/Keys'',
       c_pathLower = ''/pendingtotals/keys'', c_section = sectionOf ''/pendingtotals/keys''\<rparr>]"
    by (rule pendingTotals_candidates)
  have m: "\<lparr>c_value = Finite 5, c_path = ''Pending Totals/0/Keys'',
       c_pathLower = ''/pendingtotals/keys'', c_section = sectionOf ''/pendingtotals/keys''\<rparr>
       \<in> set (candidatesFor pendingTotals Keys)"
    unfolding c by simp
  have a: "candidatesFor scenarioA_data Keys =
     [\<lparr>c_value = Finite 500, c_path = ''stats/totals/keys'',
       c_pathLower = ''/stats/totals/keys'', c_section = sectionOf ''/stats/totals/keys''\<rparr>]"
    by (rule scenarioA_keys_candidates)
  have n: "\<lparr>c_value = Finite 500, c_path = ''stats/totals/keys'',
       c_pathLower = ''/stats/totals/keys'', c_section = sectionOf ''/stats/totals/keys''\<rparr>
       \<in> set (candidatesFor scenarioA_data Keys)"
    unfolding a by simp
  from section_tag_priority [OF m] section_tag_priority [OF n]
  show ?thesis unfolding c a by simp
qed

text \<open>
  C9, as amended. The snippet is the trimmed body when that has at most 200 characters,
  and otherwise its first 200 characters followed by three dots: at most 203 characters.
\<close>

theorem safeSnippet_length:
  "length (safeSnippet body defaultMaxLen) \<le> 203 \<and>
   safeSnippet body defaultMaxLen =
     (if length (trim body) \<le> 200 then trim body else take 200 (trim body) @ ''...'')"
  by (simp add: safeSnippet_def defaultMaxLen_def Let_def)

text \<open>C9 as stated fails: a body of 201 letters gives a snippet of 203 characters.\<close>

theorem safeSnippet_counterexample:
  "length (safeSnippet (replicate 201 (CHR ''a'')) defaultMaxLen) = 203"
  by (simp add: safeSnippet_def defaultMaxLen_def trim_def isSpace_def Let_def)

text \<open>
  C10. When the document is a single finite number \<open>n\<close>, that leaf is a candidate
  tagged \<open>none\<close> for every field class (its key is the empty string, which every
  pattern contains), and the extractor puts \<open>n\<close> in all four fields of
  \<open>totals\<close> and of a non-null \<open>unpulsed\<close>.
\<close>

theorem bare_number_fills_both_sections:
  "candidatesFor (JNumber (Finite n)) field =
     [\<lparr>c_value = Finite n, c_path = [], c_pathLower = [], c_section = CNone\<rparr>] \<and>
   normalize timestamp (JNumber (Finite n)) = Inr (buildOutput timestamp (JNumber (Finite n))) \<and>
   totals (buildOutput timestamp (JNumber (Finite n))) =
     \<lparr>keys = Some (Finite n), clicks = Some (Finite n), scrolls = Some (Finite n),
      uptimeSeconds = Some (Finite n)\<rparr> \<and>
   unpulsed (buildOutput timestamp (JNumber (Finite n))) =
     Some \<lparr>keys = Some (Finite n), clicks = Some (Finite n), scrolls = Some (Finite n),
           uptimeSeconds = Some (Finite n)\<rparr>"
  by (simp add: normalize_def buildOutput_def extractSection_def numericFields_def
        bare_number_candidates pickBest_single Let_def)

theorem bare_number_fills_both_sections_witness:
  "candidatesFor (JNumber (Finite 42)) Scrolls =
     [\<lparr>c_value = Finite 42, c_path = [], c_pathLower = [], c_section = CNone\<rparr>] \<and>
   totals (buildOutput ''t1'' (JNumber (Finite 42))) =
     \<lparr>keys = Some (Finite 42), clicks = Some (Finite 42), scrolls = Some (Finite 42),
      uptimeSeconds = Some (Finite 42)\<rparr> \<and>
   unpulsed (buildOutput ''t1'' (JNumber (Finite 42))) =
     Some \<lparr>keys = Some (Finite 42), clicks = Some (Finite 42), scrolls = Some (Finite 42),
           uptimeSeconds = Some (Finite 42)\<rparr>"
  using bare_number_fills_both_sections [of 42 Scrolls "''t1''"] by simp

end
